theory Spec2Isabelle
  imports Complex_Main "HOL-Library.Word"
begin

section \<open>Machine arithmetic of the sketches\<close>

text \<open>
  The sketches target the ESP32, where \<open>int\<close> and \<open>long\<close> are both 32-bit two's
  complement. Signed values are modelled as \<open>int\<close>; an operation whose mathematical
  result leaves the 32-bit range is undefined in C and is an error value of the model,
  as is a division by zero.
\<close>

datatype error = DivisionByZero | SignedOverflow | OutOfBounds

definition fits_long :: "int \<Rightarrow> bool" where
  "fits_long v \<longleftrightarrow> - 2147483648 \<le> v \<and> v \<le> 2147483647"

text \<open>C's \<open>/\<close> on signed integers truncates toward zero.\<close>

definition c_div :: "int \<Rightarrow> int \<Rightarrow> int" where
  "c_div a b = sgn a * sgn b * (\<bar>a\<bar> div \<bar>b\<bar>)"

text \<open>
  The division of two \<open>long\<close> values: undefined for a zero divisor, and for a quotient
  outside the 32-bit range.
\<close>

definition long_div :: "int \<Rightarrow> int \<Rightarrow> error + int" where
  "long_div a b =
     (if b = 0 then Inl DivisionByZero
      else if \<not> fits_long (c_div a b) then Inl SignedOverflow
      else Inr (c_div a b))"

text \<open>\<open>static int clampi(int v, int lo, int hi)\<close>\<close>

definition clampi :: "int \<Rightarrow> int \<Rightarrow> int \<Rightarrow> int" where
  "clampi v lo hi = (if v < lo then lo else if v > hi then hi else v)"

section \<open>Percent mapping\<close>

text \<open>
  \<open>moisturePercent\<close> of \<open>plantmonitor.ino\<close> (the same body is in the partial-update and
  5-level sketches): the calibration constants \<open>DRY_RAW\<close> and \<open>WET_RAW\<close> are parameters.
  \<^verbatim>\<open>long pct = (long)(DRY_RAW - raw) * 100L / (long)(DRY_RAW - WET_RAW);
  return clampi((int)pct, 0, 100);\<close>
\<close>

definition moisturePercent :: "int \<Rightarrow> int \<Rightarrow> int \<Rightarrow> error + int" where
  "moisturePercent DRY_RAW WET_RAW raw =
     (if \<not> fits_long (DRY_RAW - raw) \<or> \<not> fits_long (DRY_RAW - WET_RAW) then Inl SignedOverflow
      else if \<not> fits_long ((DRY_RAW - raw) * 100) then Inl SignedOverflow
      else (case long_div ((DRY_RAW - raw) * 100) (DRY_RAW - WET_RAW) of
              Inl e \<Rightarrow> Inl e
            | Inr pct \<Rightarrow> Inr (clampi pct 0 100)))"

text \<open>
  \<open>moisturePercentFromRaw\<close> of the full-refresh landscape sketch (and \<open>moisturePercent\<close> of
  the unrotated sketch, which has the same body): the denominator is tested on every call.
  \<^verbatim>\<open>long denom = (long)(DRY_RAW - WET_RAW);
  if (denom == 0) return 0;
  long pct = (long)(DRY_RAW - raw) * 100L / denom;
  return clampi((int)pct, 0, 100);\<close>
\<close>

definition moisturePercentFromRaw :: "int \<Rightarrow> int \<Rightarrow> int \<Rightarrow> error + int" where
  "moisturePercentFromRaw DRY_RAW WET_RAW raw =
     (let denom = DRY_RAW - WET_RAW in
      if \<not> fits_long denom then Inl SignedOverflow
      else if denom = 0 then Inr 0
      else if \<not> fits_long (DRY_RAW - raw) \<or> \<not> fits_long ((DRY_RAW - raw) * 100)
        then Inl SignedOverflow
      else (case long_div ((DRY_RAW - raw) * 100) denom of
              Inl e \<Rightarrow> Inl e
            | Inr pct \<Rightarrow> Inr (clampi pct 0 100)))"

text \<open>
  \<open>readMoistureRaw\<close> of \<open>plantmonitor.ino\<close>. \<open>analogRead i\<close> is the value the \<open>i\<close>-th call
  of \<open>analogRead(MOISTURE_PIN)\<close> returns; \<open>read_loop analogRead n\<close> is the value of \<open>sum\<close> after
  \<open>n\<close> rounds of the loop.
  \<^verbatim>\<open>const int N = 16;  long sum = 0;
  for (int i = 0; i < N; i++) { sum += analogRead(MOISTURE_PIN); delay(5); }
  return (int)(sum / N);\<close>
\<close>

primrec read_loop :: "(nat \<Rightarrow> int) \<Rightarrow> nat \<Rightarrow> error + int" where
  "read_loop analogRead 0 = Inr 0"
| "read_loop analogRead (Suc i) =
     (case read_loop analogRead i of
        Inl e \<Rightarrow> Inl e
      | Inr acc \<Rightarrow>
          if fits_long (acc + analogRead i) then Inr (acc + analogRead i)
          else Inl SignedOverflow)"

definition readMoistureRaw :: "(nat \<Rightarrow> int) \<Rightarrow> error + int" where
  "readMoistureRaw analogRead =
     (case read_loop analogRead 16 of Inl e \<Rightarrow> Inl e | Inr acc \<Rightarrow> long_div acc 16)"

text \<open>
  The formula in the words of the specification, over the rationals: the quotient is
  rounded to the nearest integer and then clamped.
\<close>

definition spec_percent :: "int \<Rightarrow> int \<Rightarrow> int \<Rightarrow> int" where
  "spec_percent dryRaw wetRaw raw =
     clampi (round (of_int ((dryRaw - raw) * 100) / of_int (dryRaw - wetRaw) :: rat)) 0 100"

text \<open>The same formula with the quotient truncated toward zero instead.\<close>

definition trunc_rat :: "rat \<Rightarrow> int" where
  "trunc_rat q = (if 0 \<le> q then \<lfloor>q\<rfloor> else \<lceil>q\<rceil>)"

definition trunc_percent :: "int \<Rightarrow> int \<Rightarrow> int \<Rightarrow> int" where
  "trunc_percent dryRaw wetRaw raw =
     clampi (trunc_rat (of_int ((dryRaw - raw) * 100) / of_int (dryRaw - wetRaw))) 0 100"

section \<open>Mood classification, 5-level sketch\<close>

definition THRESH_DRY5 :: int where "THRESH_DRY5 = 20"
definition THRESH_SLIGHT5 :: int where "THRESH_SLIGHT5 = 40"
definition THRESH_IDEAL5 :: int where "THRESH_IDEAL5 = 60"
definition THRESH_WET5 :: int where "THRESH_WET5 = 80"
definition THRESH_SATURATED5 :: int where "THRESH_SATURATED5 = 90"

definition statusFromPct5 :: "int \<Rightarrow> string" where
  "statusFromPct5 pct =
     (if pct < THRESH_DRY5 then ''DRY''
      else if pct < THRESH_SLIGHT5 then ''DAMP''
      else if pct < THRESH_IDEAL5 then ''IDEAL''
      else if pct < THRESH_WET5 then ''WET''
      else if pct < THRESH_SATURATED5 then ''VERY WET''
      else ''SATURATED'')"

text \<open>The five labels the specification lists for this configuration.\<close>

definition spec_labels5 :: "string list" where
  "spec_labels5 = [''DRY'', ''DAMP'', ''IDEAL'', ''WET'', ''SATURATED'']"

section \<open>Polling loop\<close>

text \<open>
  \<open>loop()\<close> of \<open>plantmonitor.ino\<close>. The state kept across activations is the static
  \<open>lastUpdate\<close>; \<open>refreshes\<close> counts the calls of \<open>partialUpdateBox\<close>, the physical
  refresh. \<open>now\<close> is the value \<open>millis()\<close> returns, a 32-bit unsigned tick count.
  \<^verbatim>\<open>if ((uint32_t)(now - lastUpdate) < UPDATE_MS) return;
  lastUpdate = now;  ...  partialUpdateBox();\<close>
\<close>

record loop_state =
  lastUpdate :: "32 word"
  refreshes :: nat

definition loop :: "32 word \<Rightarrow> 32 word \<Rightarrow> loop_state \<Rightarrow> loop_state" where
  "loop UPDATE_MS now s =
     (if now - lastUpdate s < UPDATE_MS then s
      else s\<lparr>lastUpdate := now, refreshes := Suc (refreshes s)\<rparr>)"

text \<open>A run of activations at the tick values of a list, in order.\<close>

fun run_loop :: "32 word \<Rightarrow> 32 word list \<Rightarrow> loop_state \<Rightarrow> loop_state" where
  "run_loop UPDATE_MS [] s = s"
| "run_loop UPDATE_MS (now # rest) s = run_loop UPDATE_MS rest (loop UPDATE_MS now s)"

section \<open>Region extraction\<close>

type_synonym byte = "8 word"

text \<open>
  The dynamic region \<open>BOX_X\<close>, \<open>BOX_Y\<close>, \<open>BOX_W\<close>, \<open>BOX_H\<close> (macros in the sketches) as
  a record, in pixels.
\<close>

record box =
  BOX_X :: nat
  BOX_Y :: nat
  BOX_W :: nat
  BOX_H :: nat

text \<open>
  \<^verbatim>\<open>#define SCR_ROW_BYTES ((EPD_WIDTH % 8 == 0) ? (EPD_WIDTH / 8) : (EPD_WIDTH / 8 + 1))
  #define BOX_ROW_BYTES ((BOX_W % 8 == 0) ? (BOX_W / 8) : (BOX_W / 8 + 1))\<close>
  \<open>EPD_WIDTH\<close> comes from the panel driver's header and is a parameter.
\<close>

definition SCR_ROW_BYTES :: "nat \<Rightarrow> nat" where
  "SCR_ROW_BYTES EPD_WIDTH =
     (if EPD_WIDTH mod 8 = 0 then EPD_WIDTH div 8 else EPD_WIDTH div 8 + 1)"

definition BOX_ROW_BYTES :: "box \<Rightarrow> nat" where
  "BOX_ROW_BYTES b = (if BOX_W b mod 8 = 0 then BOX_W b div 8 else BOX_W b div 8 + 1)"

text \<open>
  \<open>memcpy(dst + d, src + s, n)\<close> on byte arrays held as lists. Reading or writing
  past the end of an array is undefined in C and an error of the model.
\<close>

definition memcpy :: "byte list \<Rightarrow> nat \<Rightarrow> byte list \<Rightarrow> nat \<Rightarrow> nat \<Rightarrow> error + byte list" where
  "memcpy dst d src s n =
     (if d + n \<le> length dst \<and> s + n \<le> length src
      then Inr (take d dst @ take n (drop s src) @ drop (d + n) dst)
      else Inl OutOfBounds)"

text \<open>
  The loop of \<open>copyBoxFromBWimage\<close>, from row \<open>y\<close> on:
  \<^verbatim>\<open>for (int y = 0; y < BOX_H; y++) {
    const uint8_t* src = BWimage + (BOX_Y + y) * SCR_ROW_BYTES + srcByteX;
    uint8_t* dst = boxBuf + y * BOX_ROW_BYTES;
    memcpy(dst, src, BOX_ROW_BYTES);
  }\<close>
  with \<open>srcByteX = BOX_X / 8\<close>.
\<close>

function copy_rows :: "nat \<Rightarrow> box \<Rightarrow> byte list \<Rightarrow> nat \<Rightarrow> byte list \<Rightarrow> error + byte list" where
  "copy_rows EPD_WIDTH b BWimage y boxBuf =
     (if y < BOX_H b
      then (case memcpy boxBuf (y * BOX_ROW_BYTES b)
                   BWimage ((BOX_Y b + y) * SCR_ROW_BYTES EPD_WIDTH + BOX_X b div 8)
                   (BOX_ROW_BYTES b) of
              Inl e \<Rightarrow> Inl e
            | Inr boxBuf' \<Rightarrow> copy_rows EPD_WIDTH b BWimage (Suc y) boxBuf')
      else Inr boxBuf)"
  by pat_completeness auto
termination
  by (relation "measure (\<lambda>(W, b, img, y, buf). BOX_H b - y)") auto

declare copy_rows.simps [simp del]

text \<open>
  \<open>copyBoxFromBWimage\<close>: the destination is the static array
  \<open>boxBuf[BOX_ROW_BYTES * BOX_H]\<close>; the result is its content after the loop.
\<close>

definition copyBoxFromBWimage :: "nat \<Rightarrow> box \<Rightarrow> byte list \<Rightarrow> error + byte list" where
  "copyBoxFromBWimage EPD_WIDTH b BWimage =
     copy_rows EPD_WIDTH b BWimage 0 (replicate (BOX_ROW_BYTES b * BOX_H b) 0)"

text \<open>
  The other half of the round trip, in the words of the specification (the sketches have
  no such function): the rows of an extracted buffer are written at the region's
  coordinates into a freshly zeroed canvas of \<open>rowBytes * height\<close> bytes.
\<close>

function write_rows :: "nat \<Rightarrow> box \<Rightarrow> byte list \<Rightarrow> nat \<Rightarrow> byte list \<Rightarrow> error + byte list" where
  "write_rows width r bytes y canvas =
     (if y < BOX_H r
      then (case memcpy canvas ((BOX_Y r + y) * SCR_ROW_BYTES width + BOX_X r div 8)
                   bytes (y * (BOX_W r div 8)) (BOX_W r div 8) of
              Inl e \<Rightarrow> Inl e
            | Inr canvas' \<Rightarrow> write_rows width r bytes (Suc y) canvas')
      else Inr canvas)"
  by pat_completeness auto
termination
  by (relation "measure (\<lambda>(W, b, bytes, y, c). BOX_H b - y)") auto

declare write_rows.simps [simp del]

definition write_back :: "nat \<Rightarrow> nat \<Rightarrow> box \<Rightarrow> byte list \<Rightarrow> error + byte list" where
  "write_back width height r bytes =
     write_rows width r bytes 0 (replicate (SCR_ROW_BYTES width * height) 0)"

text \<open>The Region invariants of the specification, for a canvas of \<open>width\<close> by \<open>height\<close> pixels.\<close>

definition region_ok :: "nat \<Rightarrow> nat \<Rightarrow> box \<Rightarrow> bool" where
  "region_ok width height r \<longleftrightarrow>
     BOX_X r mod 8 = 0 \<and> BOX_W r mod 8 = 0
     \<and> BOX_X r + BOX_W r \<le> width \<and> BOX_Y r + BOX_H r \<le> height"

section \<open>Dynamic layer\<close>

text \<open>
  The sketches draw through the GUI library \<open>epd_gui\<close>, which is not among the sources.
  A render is modelled as the list of library calls it makes, in order, each with the
  arguments the sketch passes. The line style is \<open>SOLID\<close> and the point style \<open>AROUND\<close>
  in every call, so they are not recorded.
\<close>

datatype color = WHITE | BLACK
datatype draw_fill = EMPTY | FULL
datatype dot_pixel = PIXEL_1X1 | PIXEL_2X2 | PIXEL_3X3
datatype font = Font16 | Font24

datatype gui_call =
    Gui_Draw_Rectangle int int int int color draw_fill dot_pixel
  | Gui_Draw_Circle int int int color draw_fill dot_pixel
  | Gui_Draw_Line int int int int color dot_pixel
  | Gui_Draw_Str int int string font color color
  | Gui_Draw_Point int int color dot_pixel

text \<open>\<open>snprintf(buf, n, "%d", v)\<close>: the decimal digits of \<open>v\<close>, cut to \<open>n - 1\<close> characters.\<close>

fun dec_digits :: "nat \<Rightarrow> string" where
  "dec_digits n =
     (if n < 10 then [char_of (48 + n)]
      else dec_digits (n div 10) @ [char_of (48 + n mod 10)])"

declare dec_digits.simps [simp del]

definition fmt_d :: "int \<Rightarrow> string" where
  "fmt_d v = (if v < 0 then CHR ''-'' # dec_digits (nat (- v)) else dec_digits (nat v))"

definition snprintf :: "nat \<Rightarrow> string \<Rightarrow> string" where
  "snprintf n s = take (n - 1) s"

text \<open>The 3-level thresholds and \<open>statusFromPct\<close> of \<open>plantmonitor.ino\<close>.\<close>

definition THRESH_DRY :: int where "THRESH_DRY = 35"
definition THRESH_WET :: int where "THRESH_WET = 70"

definition statusFromPct :: "int \<Rightarrow> string" where
  "statusFromPct pct =
     (if pct < THRESH_DRY then ''DRY'' else if pct \<ge> THRESH_WET then ''WET'' else ''OK'')"

definition drawPercentSymbol :: "int \<Rightarrow> int \<Rightarrow> gui_call list" where
  "drawPercentSymbol x y =
     [Gui_Draw_Circle (x + 2) (y + 2) 2 BLACK FULL PIXEL_1X1,
      Gui_Draw_Circle (x + 12) (y + 14) 2 BLACK FULL PIXEL_1X1,
      Gui_Draw_Line (x + 12) (y + 2) (x + 2) (y + 14) BLACK PIXEL_1X1]"

text \<open>\<open>drawFaceAt\<close> of \<open>plantmonitor.ino\<close>: head, two eyes and one of three mouths.\<close>

definition drawFaceAt :: "int \<Rightarrow> int \<Rightarrow> int \<Rightarrow> int \<Rightarrow> gui_call list" where
  "drawFaceAt cx cy r pct =
     (let ex = c_div r 3; ey = c_div r 4; er = 3 in
      [Gui_Draw_Circle cx cy r BLACK EMPTY PIXEL_2X2,
       Gui_Draw_Circle (cx - ex) (cy - ey) er BLACK FULL PIXEL_1X1,
       Gui_Draw_Circle (cx + ex) (cy - ey) er BLACK FULL PIXEL_1X1]
      @ (if pct \<ge> THRESH_WET then
           [Gui_Draw_Line (cx - c_div r 2) (cy + c_div r 6) (cx - c_div r 4) (cy + c_div r 3)
              BLACK PIXEL_2X2,
            Gui_Draw_Line (cx - c_div r 4) (cy + c_div r 3) (cx + c_div r 4) (cy + c_div r 3)
              BLACK PIXEL_2X2,
            Gui_Draw_Line (cx + c_div r 4) (cy + c_div r 3) (cx + c_div r 2) (cy + c_div r 6)
              BLACK PIXEL_2X2]
         else if pct < THRESH_DRY then
           [Gui_Draw_Line (cx - c_div r 2) (cy + c_div r 2) (cx - c_div r 4) (cy + c_div r 3)
              BLACK PIXEL_2X2,
            Gui_Draw_Line (cx - c_div r 4) (cy + c_div r 3) (cx + c_div r 4) (cy + c_div r 3)
              BLACK PIXEL_2X2,
            Gui_Draw_Line (cx + c_div r 4) (cy + c_div r 3) (cx + c_div r 2) (cy + c_div r 2)
              BLACK PIXEL_2X2]
         else
           [Gui_Draw_Line (cx - c_div r 2 + 6) (cy + c_div r 3) (cx + c_div r 2 - 6)
              (cy + c_div r 3) BLACK PIXEL_2X2]))"

text \<open>
  The progress bar of \<open>plantmonitor.ino\<close>; the landscape sketches and both \<open>renderScreen\<close>
  functions have the same three statements with other values of \<open>barX\<close>, \<open>barY\<close>,
  \<open>barW\<close> and \<open>barH\<close>, which are parameters here.
  \<^verbatim>\<open>Gui_Draw_Rectangle(barX, barY, barX + barW, barY + barH, BLACK, EMPTY, PIXEL_1X1);
  int fillW = (barW - 2) * pct / 100;
  Gui_Draw_Rectangle(barX + 1, barY + 1, barX + 1 + fillW, barY + barH - 1, BLACK, FULL, PIXEL_1X1);\<close>
\<close>

definition draw_bar :: "int \<Rightarrow> int \<Rightarrow> int \<Rightarrow> int \<Rightarrow> int \<Rightarrow> gui_call list" where
  "draw_bar barX barY barW barH pct =
     (let fillW = c_div ((barW - 2) * pct) 100 in
      [Gui_Draw_Rectangle barX barY (barX + barW) (barY + barH) BLACK EMPTY PIXEL_1X1,
       Gui_Draw_Rectangle (barX + 1) (barY + 1) (barX + 1 + fillW) (barY + barH - 1)
         BLACK FULL PIXEL_1X1])"

text \<open>\<open>drawDynamic\<close> of \<open>plantmonitor.ino\<close>.\<close>

definition drawDynamic :: "box \<Rightarrow> int \<Rightarrow> gui_call list" where
  "drawDynamic b pct =
     (let X = int (BOX_X b); Y = int (BOX_Y b); W = int (BOX_W b); H = int (BOX_H b);
          leftX = 6;
          pctStr = snprintf 8 (fmt_d pct);
          xPct = leftX + (if pct < 10 then 18 else if pct < 100 then 32 else 46);
          stLine = snprintf 24 (''Status: '' @ statusFromPct pct);
          faceR = 28;
          faceCx = X + c_div (W * 3) 4;
          faceCy = Y + c_div H 2
      in [Gui_Draw_Rectangle (X + 1) (Y + 1) (X + W - 2) (Y + H - 2) WHITE FULL PIXEL_1X1,
          Gui_Draw_Str leftX (Y + 10) ''Moisture'' Font16 WHITE BLACK,
          Gui_Draw_Str leftX (Y + 34) pctStr Font24 WHITE BLACK]
         @ drawPercentSymbol xPct (Y + 40)
         @ [Gui_Draw_Str leftX (Y + 72) stLine Font16 WHITE BLACK]
         @ draw_bar leftX (Y + H - 20) 56 8 pct
         @ [Gui_Draw_Point faceCx faceCy BLACK PIXEL_3X3]
         @ drawFaceAt faceCx faceCy faceR pct)"

text \<open>
  \<open>drawStaticLayout\<close> of \<open>plantmonitor.ino\<close>, as far as it draws: title, divider and the
  outline of the region. Selecting and clearing the two image buffers is not a drawing
  call and is not recorded.
\<close>

definition drawStaticLayout :: "box \<Rightarrow> gui_call list" where
  "drawStaticLayout b =
     (let X = int (BOX_X b); Y = int (BOX_Y b); W = int (BOX_W b); H = int (BOX_H b) in
      [Gui_Draw_Str 0 0 ''Plant Monitor'' Font24 WHITE BLACK,
       Gui_Draw_Line 0 28 119 28 BLACK PIXEL_1X1,
       Gui_Draw_Rectangle X Y (X + W - 1) (Y + H - 1) BLACK EMPTY PIXEL_1X1])"

text \<open>
  \<open>setup()\<close> of \<open>plantmonitor.ino\<close>. Serial port, ADC and panel are configured, the static
  layout is drawn, and then, with no test of the calibration constants anywhere,
  \<^verbatim>\<open>int raw = readMoistureRaw();
  int pct = moisturePercent(raw);
  ...
  drawDynamic(pct);
  EPD_Display(BWimage, RWimage);\<close>
  The result is the percent and the calls of the boot frame, or the error the sequence
  ran into.
\<close>

definition setup_boot :: "int \<Rightarrow> int \<Rightarrow> box \<Rightarrow> (nat \<Rightarrow> int) \<Rightarrow> error + int \<times> gui_call list" where
  "setup_boot DRY_RAW WET_RAW b analogRead =
     (case readMoistureRaw analogRead of
        Inl e \<Rightarrow> Inl e
      | Inr raw \<Rightarrow>
          (case moisturePercent DRY_RAW WET_RAW raw of
             Inl e \<Rightarrow> Inl e
           | Inr pct \<Rightarrow> Inr (pct, drawStaticLayout b @ drawDynamic b pct)))"

text \<open>\<open>drawFaceAt\<close> of the 5-level sketch: five mouths, the last with a sweat drop.\<close>

definition drawFaceAt5 :: "int \<Rightarrow> int \<Rightarrow> int \<Rightarrow> int \<Rightarrow> gui_call list" where
  "drawFaceAt5 cx cy r pct =
     (let ex = c_div r 3; ey = c_div r 4; er = 3 in
      [Gui_Draw_Circle cx cy r BLACK EMPTY PIXEL_2X2,
       Gui_Draw_Circle (cx - ex) (cy - ey) er BLACK FULL PIXEL_1X1,
       Gui_Draw_Circle (cx + ex) (cy - ey) er BLACK FULL PIXEL_1X1]
      @ (if pct < THRESH_DRY5 then
           [Gui_Draw_Line (cx - c_div r 2) (cy + c_div r 2) (cx - c_div r 4) (cy + c_div r 3)
              BLACK PIXEL_2X2,
            Gui_Draw_Line (cx - c_div r 4) (cy + c_div r 3) (cx + c_div r 4) (cy + c_div r 3)
              BLACK PIXEL_2X2,
            Gui_Draw_Line (cx + c_div r 4) (cy + c_div r 3) (cx + c_div r 2) (cy + c_div r 2)
              BLACK PIXEL_2X2]
         else if pct < THRESH_SLIGHT5 then
           [Gui_Draw_Line (cx - c_div r 2) (cy + c_div r 3) (cx - c_div r 4) (cy + c_div r 4)
              BLACK PIXEL_2X2,
            Gui_Draw_Line (cx - c_div r 4) (cy + c_div r 4) (cx + c_div r 4) (cy + c_div r 4)
              BLACK PIXEL_2X2,
            Gui_Draw_Line (cx + c_div r 4) (cy + c_div r 4) (cx + c_div r 2) (cy + c_div r 3)
              BLACK PIXEL_2X2]
         else if pct < THRESH_IDEAL5 then
           [Gui_Draw_Line (cx - c_div r 2) (cy + c_div r 4) (cx - c_div r 4) (cy + c_div r 3)
              BLACK PIXEL_2X2,
            Gui_Draw_Line (cx - c_div r 4) (cy + c_div r 3) (cx + c_div r 4) (cy + c_div r 3)
              BLACK PIXEL_2X2,
            Gui_Draw_Line (cx + c_div r 4) (cy + c_div r 3) (cx + c_div r 2) (cy + c_div r 4)
              BLACK PIXEL_2X2]
         else if pct < THRESH_WET5 then
           [Gui_Draw_Line (cx - c_div r 2) (cy + c_div r 6) (cx - c_div r 4) (cy + c_div r 3)
              BLACK PIXEL_2X2,
            Gui_Draw_Line (cx - c_div r 4) (cy + c_div r 3) (cx + c_div r 4) (cy + c_div r 3)
              BLACK PIXEL_2X2,
            Gui_Draw_Line (cx + c_div r 4) (cy + c_div r 3) (cx + c_div r 2) (cy + c_div r 6)
              BLACK PIXEL_2X2]
         else
           [Gui_Draw_Line (cx - c_div r 2 + 4) (cy + c_div r 3) (cx + c_div r 2 - 4)
              (cy + c_div r 3) BLACK PIXEL_2X2,
            Gui_Draw_Circle (cx - r + 2) (cy - c_div r 3) 2 BLACK FULL PIXEL_1X1]))"

text \<open>
  The progress bar of the 5-level sketch, whose comment calls it fixed, with no border
  overwrite and a clean fill from 0 to 100 percent:
  \<^verbatim>\<open>int x0 = barX; int y0 = barY; int x1 = barX + barW; int y1 = barY + barH;
  Gui_Draw_Rectangle(x0, y0, x1, y1, BLACK, EMPTY, PIXEL_1X1);
  int ix0 = x0 + 1; int ix1 = x1 - 1; int iy0 = y0; int iy1 = y1;
  int innerW = ix1 - ix0 + 1;
  int fillPx = (innerW * pct) / 100;
  if (fillPx > 0) Gui_Draw_Rectangle(ix0, iy0, ix0 + fillPx - 1, iy1, BLACK, FULL, PIXEL_1X1);\<close>
\<close>

definition draw_bar5 :: "int \<Rightarrow> int \<Rightarrow> int \<Rightarrow> int \<Rightarrow> int \<Rightarrow> gui_call list" where
  "draw_bar5 barX barY barW barH pct =
     (let x0 = barX; y0 = barY; x1 = barX + barW; y1 = barY + barH;
          ix0 = x0 + 1; ix1 = x1 - 1; iy0 = y0; iy1 = y1;
          innerW = ix1 - ix0 + 1;
          fillPx = c_div (innerW * pct) 100
      in Gui_Draw_Rectangle x0 y0 x1 y1 BLACK EMPTY PIXEL_1X1
         # (if fillPx > 0
            then [Gui_Draw_Rectangle ix0 iy0 (ix0 + fillPx - 1) iy1 BLACK FULL PIXEL_1X1]
            else []))"

text \<open>
  The face placement of the 5-level sketch, with the clamp its comment calls an optional safety
  clamp, so that nothing is drawn outside the box:
  \<^verbatim>\<open>int faceCx = BOX_X + (BOX_W * 3) / 4 + faceDx;
  int faceCy = BOX_Y + (BOX_H / 2) + faceDy;
  const int pad = 2;
  faceCx = clampi(faceCx, BOX_X + pad + faceR, BOX_X + BOX_W - pad - faceR);
  faceCy = clampi(faceCy, BOX_Y + pad + faceR, BOX_Y + BOX_H - pad - faceR);\<close>
\<close>

definition faceCentre :: "box \<Rightarrow> int \<Rightarrow> int \<Rightarrow> int \<Rightarrow> int \<times> int" where
  "faceCentre b faceR faceDx faceDy =
     (let X = int (BOX_X b); Y = int (BOX_Y b); W = int (BOX_W b); H = int (BOX_H b);
          faceCx = X + c_div (W * 3) 4 + faceDx;
          faceCy = Y + c_div H 2 + faceDy;
          pad = 2
      in (clampi faceCx (X + pad + faceR) (X + W - pad - faceR),
          clampi faceCy (Y + pad + faceR) (Y + H - pad - faceR)))"

text \<open>\<open>drawDynamic\<close> of the 5-level sketch, with \<open>faceR = 45\<close>, \<open>faceDx = 5\<close>, \<open>faceDy = 20\<close>.\<close>

definition drawDynamic5 :: "box \<Rightarrow> int \<Rightarrow> gui_call list" where
  "drawDynamic5 b pct =
     (let X = int (BOX_X b); Y = int (BOX_Y b); W = int (BOX_W b); H = int (BOX_H b);
          leftX = 6;
          pctStr = snprintf 8 (fmt_d pct);
          xPct = leftX + (if pct < 10 then 18 else if pct < 100 then 32 else 46);
          faceR = 45
      in [Gui_Draw_Rectangle (X + 1) (Y + 1) (X + W - 2) (Y + H - 2) WHITE FULL PIXEL_1X1,
          Gui_Draw_Str leftX (Y - 20) ''Moisture'' Font24 WHITE BLACK,
          Gui_Draw_Str leftX (Y + 4) pctStr Font24 WHITE BLACK]
         @ drawPercentSymbol (xPct + 20) (Y + 5)
         @ [Gui_Draw_Str leftX (Y + 72) (statusFromPct5 pct) Font16 WHITE BLACK]
         @ draw_bar5 leftX (Y + 40) 100 15 pct
         @ (case faceCentre b faceR 5 20 of
              (faceCx, faceCy) \<Rightarrow> drawFaceAt5 faceCx faceCy faceR pct))"

text \<open>
  The regions of the two sketches. \<open>plantmonitor.ino\<close>: \<open>BOX_X 0\<close>, \<open>BOX_Y 32\<close>,
  \<open>BOX_W 120\<close>, \<open>BOX_H 210\<close>. The 5-level sketch, with \<open>EPD_HEIGHT = 250\<close> and
  \<open>EPD_WIDTH = 122\<close> as its comments give them: \<open>HEADER_H 28\<close>, \<open>BOX_Y (HEADER_H + 4)\<close>,
  \<open>BOX_W ((SCREEN_W / 8) * 8)\<close>, \<open>BOX_H (SCREEN_H - BOX_Y)\<close>.
\<close>

definition box_main :: box where
  "box_main = \<lparr>BOX_X = 0, BOX_Y = 32, BOX_W = 120, BOX_H = 210\<rparr>"

definition box5 :: box where
  "box5 = \<lparr>BOX_X = 0, BOX_Y = 28 + 4, BOX_W = (250 div 8) * 8, BOX_H = 122 - (28 + 4)\<rparr>"

text \<open>
  The interior of a region: what is left of it inside the one-pixel outline that
  \<open>drawStaticLayout\<close> draws from \<open>(BOX_X, BOX_Y)\<close> to
  \<open>(BOX_X + BOX_W - 1, BOX_Y + BOX_H - 1)\<close>. Rectangles are \<open>(x0, y0, x1, y1)\<close> with all
  four sides included.
\<close>

type_synonym rect = "int \<times> int \<times> int \<times> int"

definition box_interior :: "box \<Rightarrow> rect" where
  "box_interior b = (int (BOX_X b) + 1, int (BOX_Y b) + 1,
                     int (BOX_X b) + int (BOX_W b) - 2, int (BOX_Y b) + int (BOX_H b) - 2)"

fun rect_within :: "rect \<Rightarrow> rect \<Rightarrow> bool" where
  "rect_within (a0, b0, a1, b1) (x0, y0, x1, y1) \<longleftrightarrow>
     x0 \<le> a0 \<and> a1 \<le> x1 \<and> y0 \<le> b0 \<and> b1 \<le> y1"

text \<open>
  Modelled from the spec: the primitives of \<open>epd_gui\<close> (\<open>Gui_Draw_Rectangle\<close>,
  \<open>Gui_Draw_Circle\<close>, \<open>Gui_Draw_Line\<close>, \<open>Gui_Draw_Str\<close>, \<open>Gui_Draw_Point\<close>) are missing
  from the sources. By the BitCanvas contract their arguments are canvas pixel
  coordinates: a rectangle is given by two corners, a circle by centre and radius, a line
  by its end points, a string by the origin of its first glyph. \<open>extent\<close> is the bounding
  box of pixels a call is certain to write: the corners of a rectangle, the four extreme
  points of a circle, the ends of a line, the origin of a string or point. Thicker dots
  and the glyph cells of a string add pixels around it, by amounts fixed in the missing
  library and font tables. The extent is therefore a part of what a call writes: it
  shows that a call reaches outside a rectangle, never that it stays inside one.
\<close>

fun extent :: "gui_call \<Rightarrow> rect" where
  "extent (Gui_Draw_Rectangle x0 y0 x1 y1 c f d) = (min x0 x1, min y0 y1, max x0 x1, max y0 y1)"
| "extent (Gui_Draw_Circle cx cy r c f d) = (cx - r, cy - r, cx + r, cy + r)"
| "extent (Gui_Draw_Line x0 y0 x1 y1 c d) = (min x0 x1, min y0 y1, max x0 x1, max y0 y1)"
| "extent (Gui_Draw_Str x y s f bg fg) = (x, y, x, y)"
| "extent (Gui_Draw_Point x y c d) = (x, y, x, y)"

text \<open>
  Modelled from the spec: \<open>Gui_Draw_Rectangle\<close> is missing from the sources. Following
  \<open>drawRect(x0, y0, x1, y1, color, fillMode)\<close> of the BitCanvas contract and the way the
  sketches pass corners (the outline of a region of width \<open>BOX_W\<close> ends at
  \<open>BOX_X + BOX_W - 1\<close>), both corners belong to the rectangle: a filled black rectangle
  covers the columns \<open>x0, \<dots>, x1\<close>, and an outline leaves \<open>x1 - x0 - 1\<close> columns between
  its vertical sides.
\<close>

fun fill_cols :: "gui_call \<Rightarrow> int list" where
  "fill_cols (Gui_Draw_Rectangle x0 y0 x1 y1 BLACK FULL PIXEL_1X1) =
     (if y0 \<le> y1 then [x0..x1] else [])"
| "fill_cols _ = []"

definition filled_width :: "gui_call list \<Rightarrow> nat" where
  "filled_width calls = length (remdups (concat (map fill_cols calls)))"

fun inner_cols :: "gui_call \<Rightarrow> int" where
  "inner_cols (Gui_Draw_Rectangle x0 y0 x1 y1 BLACK EMPTY PIXEL_1X1) = x1 - x0 - 1"
| "inner_cols _ = 0"

definition inner_width :: "gui_call list \<Rightarrow> int" where
  "inner_width calls = sum_list (map inner_cols calls)"

text \<open>Two calls of the 5-level sketch that the results below single out.\<close>

definition label5 :: gui_call where
  "label5 = Gui_Draw_Str 6 12 ''Moisture'' Font24 WHITE BLACK"

definition head5 :: gui_call where
  "head5 = Gui_Draw_Circle 191 75 45 BLACK EMPTY PIXEL_2X2"

section \<open>Results on the percent mapping\<close>

lemma c_div_trunc_pos:
  assumes "0 < b"
  shows "c_div a b = trunc_rat (of_int a / of_int b)"
proof (cases "0 \<le> a")
  case True
  with assms have q: "0 \<le> (of_int a / of_int b :: rat)" by simp
  have "c_div a b = a div b"
    using True assms by (cases "a = 0") (simp_all add: c_div_def)
  also have "\<dots> = \<lfloor>of_int a / of_int b :: rat\<rfloor>"
    by (simp add: floor_divide_of_int_eq)
  finally show ?thesis using q by (simp add: trunc_rat_def)
next
  case False
  with assms have q: "\<not> 0 \<le> (of_int a / of_int b :: rat)"
    by (simp add: divide_less_0_iff not_le)
  have "c_div a b = - ((- a) div b)"
    using False assms by (simp add: c_div_def)
  also have "(- a) div b = \<lfloor>of_int (- a) / of_int b :: rat\<rfloor>"
    by (simp only: floor_divide_of_int_eq)
  also have "- \<dots> = \<lceil>of_int a / of_int b :: rat\<rceil>"
    by (simp add: ceiling_def)
  finally show ?thesis using q by (simp add: trunc_rat_def)
qed

lemma c_div_minus_minus: "c_div (- a) (- b) = c_div a b"
  by (simp add: c_div_def)

lemma c_div_trunc:
  assumes "b \<noteq> 0"
  shows "c_div a b = trunc_rat (of_int a / of_int b)"
proof (cases "0 < b")
  case True
  then show ?thesis by (rule c_div_trunc_pos)
next
  case False
  with assms have "0 < - b" by simp
  then have "c_div (- a) (- b) = trunc_rat (of_int (- a) / of_int (- b))"
    by (rule c_div_trunc_pos)
  then show ?thesis by (simp add: c_div_minus_minus)
qed

lemma c_div_abs_le: "\<bar>c_div a b\<bar> \<le> \<bar>a\<bar>"
proof -
  have "0 \<le> \<bar>a\<bar> div \<bar>b\<bar>"
    by (simp add: div_int_pos_iff)
  then have "\<bar>c_div a b\<bar> = \<bar>sgn a\<bar> * \<bar>sgn b\<bar> * (\<bar>a\<bar> div \<bar>b\<bar>)"
    by (simp add: c_div_def abs_mult)
  also have "\<dots> \<le> \<bar>a\<bar> div \<bar>b\<bar>"
    by (cases "a = 0"; cases "b = 0") simp_all
  also have "\<dots> \<le> \<bar>a\<bar>"
    by (cases "a = 0") (simp_all add: int_div_le_self)
  finally show ?thesis .
qed

lemma clampi_range: "lo \<le> hi \<Longrightarrow> lo \<le> clampi v lo hi \<and> clampi v lo hi \<le> hi"
  by (simp add: clampi_def)

lemma mapper_no_overflow:
  assumes "0 \<le> raw" "raw \<le> 4095" "0 \<le> dry" "dry \<le> 4095" "0 \<le> wet" "wet \<le> 4095"
  shows "fits_long (dry - raw)" and "fits_long (dry - wet)"
    and "fits_long ((dry - raw) * 100)"
    and "fits_long (c_div ((dry - raw) * 100) (dry - wet))"
proof -
  have n: "\<bar>(dry - raw) * 100\<bar> \<le> 409500" using assms by (simp add: abs_le_iff)
  have "\<bar>c_div ((dry - raw) * 100) (dry - wet)\<bar> \<le> \<bar>(dry - raw) * 100\<bar>"
    by (rule c_div_abs_le)
  with n have q: "\<bar>c_div ((dry - raw) * 100) (dry - wet)\<bar> \<le> 409500" by linarith
  show "fits_long (dry - raw)" "fits_long (dry - wet)"
    using assms by (simp_all add: fits_long_def)
  show "fits_long ((dry - raw) * 100)"
    using n by (simp add: fits_long_def abs_le_iff)
  show "fits_long (c_div ((dry - raw) * 100) (dry - wet))"
    using q unfolding fits_long_def abs_le_iff by linarith
qed

text \<open>With all three values in the 12-bit range no intermediate result overflows.\<close>

lemma moisturePercent_12bit:
  assumes "0 \<le> raw" "raw \<le> 4095" "0 \<le> dry" "dry \<le> 4095" "0 \<le> wet" "wet \<le> 4095"
    and "dry \<noteq> wet"
  shows "moisturePercent dry wet raw = Inr (clampi (c_div ((dry - raw) * 100) (dry - wet)) 0 100)"
  using mapper_no_overflow [OF assms(1-6)] assms(7)
  by (simp add: moisturePercent_def long_div_def)

lemma moisturePercentFromRaw_12bit:
  assumes "0 \<le> raw" "raw \<le> 4095" "0 \<le> dry" "dry \<le> 4095" "0 \<le> wet" "wet \<le> 4095"
    and "dry \<noteq> wet"
  shows "moisturePercentFromRaw dry wet raw
    = Inr (clampi (c_div ((dry - raw) * 100) (dry - wet)) 0 100)"
  using mapper_no_overflow [OF assms(1-6)] assms(7)
  by (simp add: moisturePercentFromRaw_def long_div_def Let_def)

text \<open>
  C1, as the code has it: for a raw reading and calibration constants in the 12-bit range
  (\<open>dryRaw \<noteq> wetRaw\<close>), the mapper, with or without the test of the denominator, returns
  the clamped quotient \<open>(dryRaw - raw) * 100 / (dryRaw - wetRaw)\<close> truncated toward zero,
  and no 32-bit intermediate overflows.
\<close>

theorem moisturePercent_truncates:
  assumes "0 \<le> raw" "raw \<le> 4095" "0 \<le> dry" "dry \<le> 4095" "0 \<le> wet" "wet \<le> 4095"
    and "dry \<noteq> wet"
  shows "moisturePercent dry wet raw = Inr (trunc_percent dry wet raw)
    \<and> moisturePercentFromRaw dry wet raw = Inr (trunc_percent dry wet raw)"
proof -
  from assms(7) have "dry - wet \<noteq> 0" by simp
  then have "c_div ((dry - raw) * 100) (dry - wet)
      = trunc_rat (of_int ((dry - raw) * 100) / of_int (dry - wet))"
    by (rule c_div_trunc)
  with moisturePercent_12bit [OF assms] moisturePercentFromRaw_12bit [OF assms] show ?thesis
    by (simp add: trunc_percent_def)
qed

theorem moisturePercent_truncates_witness:
  "moisturePercent 3200 1400 2291 = Inr 50 \<and> moisturePercentFromRaw 3200 1400 2291 = Inr 50
   \<and> trunc_percent 3200 1400 2291 = 50"
proof -
  have t: "trunc_percent 3200 1400 2291 = 50" by code_simp
  from moisturePercent_truncates [of 2291 3200 1400] t show ?thesis by simp
qed

text \<open>
  C1, as stated, fails: at \<open>raw = 3190\<close> the quotient is \<open>1000 / 1800\<close>, which rounds to
  \<open>1\<close>, and the code returns \<open>0\<close>.
\<close>

theorem moisturePercent_not_rounded:
  "moisturePercent 3200 1400 3190 = Inr 0 \<and> moisturePercentFromRaw 3200 1400 3190 = Inr 0
   \<and> spec_percent 3200 1400 3190 = 1"
  by code_simp

text \<open>
  C2: for every raw value in 0..4095 (and any calibration pair in that range with
  \<open>dryRaw \<noteq> wetRaw\<close>) the mapper returns a percent in [0,100]; with \<open>dryRaw = 3200\<close>
  and \<open>wetRaw = 1400\<close>, \<open>raw = 1400\<close> maps to 100 and \<open>raw = 3200\<close> maps to 0.
\<close>

theorem moisturePercent_in_range:
  assumes "0 \<le> raw" "raw \<le> 4095" "0 \<le> dry" "dry \<le> 4095" "0 \<le> wet" "wet \<le> 4095"
    and "dry \<noteq> wet"
  shows "(\<exists>p. moisturePercent dry wet raw = Inr p \<and> 0 \<le> p \<and> p \<le> 100)
    \<and> moisturePercent 3200 1400 1400 = Inr 100
    \<and> moisturePercent 3200 1400 3200 = Inr 0"
proof -
  have "0 \<le> clampi (c_div ((dry - raw) * 100) (dry - wet)) 0 100
      \<and> clampi (c_div ((dry - raw) * 100) (dry - wet)) 0 100 \<le> 100"
    by (rule clampi_range) simp
  with moisturePercent_12bit [OF assms]
  have a: "\<exists>p. moisturePercent dry wet raw = Inr p \<and> 0 \<le> p \<and> p \<le> 100" by simp
  have b: "moisturePercent 3200 1400 1400 = Inr 100" by code_simp
  have c: "moisturePercent 3200 1400 3200 = Inr 0" by code_simp
  from a b c show ?thesis by simp
qed

theorem moisturePercent_in_range_witness:
  "\<exists>p. moisturePercent 3200 1400 4095 = Inr p \<and> 0 \<le> p \<and> p \<le> 100"
  using moisturePercent_in_range [of 4095 3200 1400] by simp

text \<open>Sixteen readings in the 12-bit range average to a value in that range.\<close>

lemma read_loop_range:
  assumes "\<forall>i<n. 0 \<le> analogRead i \<and> analogRead i \<le> 4095" "n \<le> 16"
  shows "\<exists>acc. read_loop analogRead n = Inr acc \<and> 0 \<le> acc \<and> acc \<le> int n * 4095"
  using assms
proof (induction n)
  case 0
  then show ?case by simp
next
  case (Suc n)
  then obtain acc where s: "read_loop analogRead n = Inr acc" "0 \<le> acc" "acc \<le> int n * 4095"
    by auto
  from Suc.prems have a: "0 \<le> analogRead n" "analogRead n \<le> 4095" by simp_all
  from Suc.prems(2) have "int n \<le> 15" by simp
  with s(3) have "acc \<le> 15 * 4095" by linarith
  with s(2) a have "fits_long (acc + analogRead n)" by (simp add: fits_long_def)
  with s a show ?case by simp
qed

lemma readMoistureRaw_range:
  assumes "\<forall>i<16. 0 \<le> analogRead i \<and> analogRead i \<le> 4095"
  shows "\<exists>raw. readMoistureRaw analogRead = Inr raw \<and> 0 \<le> raw \<and> raw \<le> 4095"
proof -
  from read_loop_range [OF assms]
  obtain acc where s: "read_loop analogRead 16 = Inr acc" "0 \<le> acc" "acc \<le> 16 * 4095"
    by auto
  have d: "c_div acc 16 = acc div 16"
    using s(2) by (cases "acc = 0") (simp_all add: c_div_def)
  from s(2,3) have r: "0 \<le> acc div 16" "acc div 16 \<le> 4095" by simp_all
  then have "fits_long (c_div acc 16)" by (simp add: d fits_long_def)
  with s(1) d r show ?thesis by (simp add: readMoistureRaw_def long_div_def)
qed

text \<open>With equal calibration constants the mapper of \<open>plantmonitor.ino\<close> divides by zero.\<close>

lemma moisturePercent_equal_calibration:
  assumes "0 \<le> raw" "raw \<le> 4095" "0 \<le> d" "d \<le> 4095"
  shows "moisturePercent d d raw = Inl DivisionByZero"
  using mapper_no_overflow(1-3) [OF assms(1,2) assms(3,4) assms(3,4)]
  by (simp add: moisturePercent_def long_div_def)

text \<open>
  The mapper with the test of the denominator returns 0 there, on every call, and never
  reaches the division by zero.
\<close>

lemma moisturePercentFromRaw_equal_calibration:
  "moisturePercentFromRaw d d raw = Inr 0"
  "moisturePercentFromRaw dry wet raw \<noteq> Inl DivisionByZero"
  by (simp_all add: moisturePercentFromRaw_def long_div_def fits_long_def Let_def)

text \<open>
  C3 on \<open>plantmonitor.ino\<close>: with \<open>DRY_RAW = WET_RAW\<close> (any value in the 12-bit range)
  and any sixteen 12-bit readings, the boot sequence raises no configuration error: it
  reads and averages the first sample, maps it, and there divides by zero.
\<close>

theorem setup_boot_divides_by_zero:
  assumes "\<forall>i<16. 0 \<le> analogRead i \<and> analogRead i \<le> 4095" "0 \<le> d" "d \<le> 4095"
  shows "setup_boot d d b analogRead = Inl DivisionByZero"
proof -
  from readMoistureRaw_range [OF assms(1)]
  obtain raw where r: "readMoistureRaw analogRead = Inr raw" "0 \<le> raw" "raw \<le> 4095"
    by auto
  from r(2,3) assms(2,3) have "moisturePercent d d raw = Inl DivisionByZero"
    by (rule moisturePercent_equal_calibration)
  with r(1) show ?thesis by (simp add: setup_boot_def)
qed

theorem setup_boot_divides_by_zero_witness:
  "setup_boot 1400 1400 box_main (\<lambda>i. 2000) = Inl DivisionByZero
   \<and> readMoistureRaw (\<lambda>i. 2000) = Inr 2000"
proof -
  have r: "readMoistureRaw (\<lambda>i. 2000) = Inr 2000" by code_simp
  from setup_boot_divides_by_zero [of "\<lambda>i. 2000" 1400 box_main] r show ?thesis by simp
qed

section \<open>Results on the classification\<close>

text \<open>
  C4, as the code has it: every percent gets exactly one of six labels, the five of the
  specification and \<open>VERY WET\<close>, each on its own interval of the thresholds
  20, 40, 60, 80 and 90; 59 is \<open>IDEAL\<close> and 60 is \<open>WET\<close>.
\<close>

theorem statusFromPct5_bands:
  "(statusFromPct5 pct = ''DRY'') = (pct < 20)
   \<and> (statusFromPct5 pct = ''DAMP'') = (20 \<le> pct \<and> pct < 40)
   \<and> (statusFromPct5 pct = ''IDEAL'') = (40 \<le> pct \<and> pct < 60)
   \<and> (statusFromPct5 pct = ''WET'') = (60 \<le> pct \<and> pct < 80)
   \<and> (statusFromPct5 pct = ''VERY WET'') = (80 \<le> pct \<and> pct < 90)
   \<and> (statusFromPct5 pct = ''SATURATED'') = (90 \<le> pct)
   \<and> statusFromPct5 pct \<in> set (''VERY WET'' # spec_labels5)
   \<and> statusFromPct5 59 = ''IDEAL'' \<and> statusFromPct5 60 = ''WET''"
  by (simp add: statusFromPct5_def spec_labels5_def THRESH_DRY5_def THRESH_SLIGHT5_def
      THRESH_IDEAL5_def THRESH_WET5_def THRESH_SATURATED5_def)

theorem statusFromPct5_bands_witness:
  "statusFromPct5 85 = ''VERY WET'' \<and> statusFromPct5 100 = ''SATURATED''
   \<and> statusFromPct5 0 = ''DRY''"
  using statusFromPct5_bands [of 85] statusFromPct5_bands [of 100] statusFromPct5_bands [of 0]
  by simp

text \<open>
  C4, as stated, fails: 85 lies in [0,100] and its label is \<open>VERY WET\<close>, which is none
  of the five labels.
\<close>

theorem statusFromPct5_sixth_label:
  "statusFromPct5 85 = ''VERY WET'' \<and> statusFromPct5 85 \<notin> set spec_labels5"
  by (simp add: statusFromPct5_def spec_labels5_def THRESH_DRY5_def THRESH_SLIGHT5_def
      THRESH_IDEAL5_def THRESH_WET5_def THRESH_SATURATED5_def)

section \<open>Results on the polling loop\<close>

text \<open>Once a refresh has happened at \<open>t + d0\<close>, an activation less than \<open>T\<close> after \<open>t\<close> is idle.\<close>

lemma loop_quiet:
  fixes T :: "32 word"
  assumes "lastUpdate s = t + d0" "d0 \<le> d" "d < T"
  shows "loop T (t + d) s = s"
proof -
  have e: "t + d - lastUpdate s = d - d0" using assms(1) by simp
  have "d - d0 \<le> d" using assms(2) by (rule word_sub_le)
  then have "d - d0 < T" using assms(3) by (rule le_less_trans)
  then have "t + d - lastUpdate s < T" by (simp only: e)
  then show ?thesis by (simp only: loop_def if_True)
qed

lemma run_loop_quiet:
  fixes T :: "32 word"
  assumes "lastUpdate s = t + d0" "\<forall>d\<in>set ds. d0 \<le> d \<and> d < T"
  shows "run_loop T (map (\<lambda>d. t + d) ds) s = s"
  using assms
proof (induction ds)
  case Nil
  then show ?case by simp
next
  case (Cons d ds)
  then have "loop T (t + d) s = s" by (intro loop_quiet [where ?d0.0 = d0]) simp_all
  with Cons show ?case by simp
qed

lemma run_loop_debounce:
  fixes T :: "32 word"
  assumes "sorted ds" "\<forall>d\<in>set ds. d < T"
  shows "refreshes (run_loop T (map (\<lambda>d. t + d) ds) s) \<le> Suc (refreshes s)"
  using assms
proof (induction ds arbitrary: s)
  case Nil
  then show ?case by simp
next
  case (Cons d ds)
  show ?case
  proof (cases "t + d - lastUpdate s < T")
    case True
    then have "loop T (t + d) s = s" by (simp add: loop_def)
    with Cons show ?thesis by simp
  next
    case False
    define s' where "s' = s\<lparr>lastUpdate := t + d, refreshes := Suc (refreshes s)\<rparr>"
    from False have l: "loop T (t + d) s = s'" by (simp add: loop_def s'_def)
    have "lastUpdate s' = t + d" by (simp add: s'_def)
    moreover from Cons.prems have "\<forall>e\<in>set ds. d \<le> e \<and> e < T" by auto
    ultimately have "run_loop T (map (\<lambda>d. t + d) ds) s' = s'" by (rule run_loop_quiet)
    with l show ?thesis by (simp add: s'_def)
  qed
qed

text \<open>
  The comparison is on the difference modulo \<open>2^32\<close>: if \<open>e\<close> ticks (fewer than \<open>2^32\<close>)
  have passed since \<open>lastUpdate\<close>, the activation refreshes exactly when \<open>T \<le> e\<close>, wherever
  the counter wrapped in between.
\<close>

lemma loop_elapsed:
  fixes T :: "32 word"
  assumes "e < 2 ^ 32"
  shows "(refreshes (loop T (lastUpdate s + of_nat e) s) = Suc (refreshes s)) = (unat T \<le> e)"
proof -
  have "unat (of_nat e :: 32 word) = e" using assms by (simp add: unat_of_nat)
  then have "((of_nat e :: 32 word) < T) = (e < unat T)" by (simp add: word_less_nat_alt)
  then show ?thesis by (auto simp add: loop_def)
qed

text \<open>
  C9: activations at the ticks \<open>t\<close> and \<open>t + dt\<close> with \<open>dt < T\<close> give at most one refresh,
  and so does any run of activations at non-decreasing offsets below \<open>T\<close> from \<open>t\<close>; the
  sums \<open>t + d\<close> may wrap around \<open>2^32\<close>. The elapsed-time test is exact for every true
  elapsed time below \<open>2^32\<close> ticks.
\<close>

theorem loop_debounce:
  fixes T :: "32 word"
  assumes "dt < T" "sorted ds" "\<forall>d\<in>set ds. d < T" "e < 2 ^ 32"
  shows "refreshes (loop T (t + dt) (loop T t s)) \<le> Suc (refreshes s)
    \<and> refreshes (run_loop T (map (\<lambda>d. t + d) ds) s) \<le> Suc (refreshes s)
    \<and> (refreshes (loop T (lastUpdate s + of_nat e) s) = Suc (refreshes s)) = (unat T \<le> e)"
proof -
  have "sorted [0, dt]" "\<forall>d\<in>set [0, dt]. d < T"
    using assms(1) by (auto simp: word_gt_0 intro: le_less_trans [of 0 dt T])
  then have "refreshes (run_loop T (map (\<lambda>d. t + d) [0, dt]) s) \<le> Suc (refreshes s)"
    by (rule run_loop_debounce)
  then have two: "refreshes (loop T (t + dt) (loop T t s)) \<le> Suc (refreshes s)" by simp
  from two run_loop_debounce [OF assms(2,3)] loop_elapsed [OF assms(4)] show ?thesis by simp
qed

text \<open>
  The witness starts 256 ticks before the counter wraps, with the 30 minute interval
  of the sketches: the activation at \<open>t\<close> refreshes, the one 512 ticks later (after the
  wrap) does not.
\<close>

theorem loop_debounce_witness:
  "refreshes (loop 1800000 (0xFFFFFF00 + 0x200) (loop 1800000 0xFFFFFF00
      \<lparr>lastUpdate = 0, refreshes = 0\<rparr>)) = 1
   \<and> refreshes (run_loop 1800000 (map (\<lambda>d. 0xFFFFFF00 + d) [0, 0x100, 0x200])
      \<lparr>lastUpdate = 0, refreshes = 0\<rparr>) \<le> 1
   \<and> refreshes (loop 1800000 (0 + of_nat 1800000) \<lparr>lastUpdate = 0, refreshes = 0\<rparr>) = 1"
proof -
  have h: "(0x200 :: 32 word) < 1800000" "sorted [0, 0x100, 0x200 :: 32 word]"
    "\<forall>d\<in>set [0, 0x100, 0x200 :: 32 word]. d < 1800000" "(1800000 :: nat) < 2 ^ 32"
    by simp_all
  have v: "refreshes (loop 1800000 (0xFFFFFF00 + 0x200) (loop 1800000 0xFFFFFF00
      \<lparr>lastUpdate = 0, refreshes = 0\<rparr>)) = 1"
    by (simp add: loop_def)
  from v loop_debounce [OF h, of "0xFFFFFF00" "\<lparr>lastUpdate = 0, refreshes = 0\<rparr>"]
  show ?thesis by simp
qed

section \<open>Results on the region extraction\<close>

lemma memcpy_length: "memcpy dst d src s n = Inr r \<Longrightarrow> length r = length dst"
  by (auto simp: memcpy_def split: if_splits)

lemma memcpy_nth:
  assumes "memcpy dst d src s n = Inr r" "k < length dst"
  shows "r ! k = (if d \<le> k \<and> k < d + n then src ! (s + (k - d)) else dst ! k)"
proof -
  from assms(1) have b: "d + n \<le> length dst" "s + n \<le> length src"
    and r: "r = take d dst @ take n (drop s src) @ drop (d + n) dst"
    by (auto simp: memcpy_def split: if_splits)
  from b have l1: "length (take d dst) = d" and l2: "length (take n (drop s src)) = n"
    by simp_all
  consider "k < d" | "d \<le> k" "k < d + n" | "d + n \<le> k" by linarith
  then show ?thesis
  proof cases
    case 1
    then show ?thesis using assms(2) by (simp add: r nth_append)
  next
    case 2
    then have "r ! k = take n (drop s src) ! (k - d)"
      by (simp add: r nth_append l1 l2 del: length_take)
    also have "\<dots> = src ! (s + (k - d))" using 2 b by simp
    finally show ?thesis using 2 by simp
  next
    case 3
    then have "r ! k = drop (d + n) dst ! (k - d - n)"
      by (simp add: r nth_append l1 l2 del: length_take)
    also have "\<dots> = dst ! k" using 3 assms(2) by simp
    finally show ?thesis using 3 by simp
  qed
qed

lemma memcpy_ok: "d + n \<le> length dst \<Longrightarrow> s + n \<le> length src \<Longrightarrow> \<exists>r. memcpy dst d src s n = Inr r"
  by (simp add: memcpy_def)

lemma row_below: "i < y \<Longrightarrow> j < st \<Longrightarrow> i * st + j < y * (st::nat)"
proof -
  assume a: "i < y" "j < st"
  then have "Suc i * st \<le> y * st" by (intro mult_le_mono1) simp
  with a show ?thesis by simp
qed


lemma copy_rows_inv:
  assumes "BOX_X b div 8 + BOX_ROW_BYTES b \<le> SCR_ROW_BYTES W"
    and "(BOX_Y b + BOX_H b) * SCR_ROW_BYTES W \<le> length img"
    and "length buf = BOX_ROW_BYTES b * BOX_H b"
    and "y \<le> BOX_H b"
  shows "\<exists>r. copy_rows W b img y buf = Inr r \<and> length r = length buf \<and>
     (\<forall>i<BOX_H b. \<forall>j<BOX_ROW_BYTES b. r ! (i * BOX_ROW_BYTES b + j) =
        (if y \<le> i then img ! ((BOX_Y b + i) * SCR_ROW_BYTES W + BOX_X b div 8 + j)
         else buf ! (i * BOX_ROW_BYTES b + j)))"
  using assms
proof (induction W b img y buf rule: copy_rows.induct)
  case (1 W b img y buf)
  let ?n = "BOX_ROW_BYTES b" and ?rb = "SCR_ROW_BYTES W" and ?x8 = "BOX_X b div 8"
  show ?case
  proof (cases "y < BOX_H b")
    case False
    then show ?thesis by (simp add: copy_rows.simps [of W b img y buf])
  next
    case True
    then have "Suc y * ?n \<le> BOX_H b * ?n" by (intro mult_le_mono1) simp
    then have d: "y * ?n + ?n \<le> length buf" using "1.prems"(3) by (simp add: mult.commute)
    from True have "Suc (BOX_Y b + y) * ?rb \<le> (BOX_Y b + BOX_H b) * ?rb"
      by (intro mult_le_mono1) simp
    then have s: "(BOX_Y b + y) * ?rb + ?x8 + ?n \<le> length img"
      using "1.prems"(1,2) by simp
    from memcpy_ok [OF d, of "(BOX_Y b + y) * ?rb + ?x8" img] s
    obtain buf' where m: "memcpy buf (y * ?n) img ((BOX_Y b + y) * ?rb + ?x8) ?n = Inr buf'"
      by (auto simp: add.assoc)
    have len: "length buf' = length buf" using m by (rule memcpy_length)
    from True have sy: "Suc y \<le> BOX_H b" by simp
    from "1.IH" [OF True m "1.prems"(1,2) _ sy] len "1.prems"(3)
    obtain r where r: "copy_rows W b img (Suc y) buf' = Inr r" "length r = length buf'"
      and rn: "\<And>i j. i < BOX_H b \<Longrightarrow> j < ?n \<Longrightarrow> r ! (i * ?n + j) =
        (if Suc y \<le> i then img ! ((BOX_Y b + i) * ?rb + ?x8 + j) else buf' ! (i * ?n + j))"
      by auto
    have c: "copy_rows W b img y buf = Inr r"
      using True m r(1) by (simp add: copy_rows.simps [of W b img y buf])
    have "r ! (i * ?n + j) =
        (if y \<le> i then img ! ((BOX_Y b + i) * ?rb + ?x8 + j) else buf ! (i * ?n + j))"
      if ij: "i < BOX_H b" "j < ?n" for i j
    proof -
      consider "y < i" | "i = y" | "i < y" by linarith
      then show ?thesis
      proof cases
        case 1
        then show ?thesis using rn [OF ij] by simp
      next
        case 2
        have k: "y * ?n + j < length buf" using d ij(2) by simp
        have "buf' ! (y * ?n + j) = img ! ((BOX_Y b + y) * ?rb + ?x8 + (y * ?n + j - y * ?n))"
          using memcpy_nth [OF m k] ij(2) by simp
        then show ?thesis using rn [OF ij] 2 by simp
      next
        case 3
        then have lt: "i * ?n + j < y * ?n" using ij(2) by (rule row_below)
        with d have k: "i * ?n + j < length buf" by simp
        have "buf' ! (i * ?n + j) = buf ! (i * ?n + j)"
          using memcpy_nth [OF m k] lt by simp
        then show ?thesis using rn [OF ij] 3 by simp
      qed
    qed
    with c r(2) len show ?thesis by simp
  qed
qed

lemma write_rows_inv:
  assumes "BOX_X b div 8 + BOX_W b div 8 \<le> SCR_ROW_BYTES W"
    and "(BOX_Y b + BOX_H b) * SCR_ROW_BYTES W \<le> length canvas"
    and "length bytes = BOX_W b div 8 * BOX_H b"
    and "y \<le> BOX_H b"
  shows "\<exists>r. write_rows W b bytes y canvas = Inr r \<and> length r = length canvas \<and>
     (\<forall>i<BOX_H b. \<forall>j<BOX_W b div 8. r ! ((BOX_Y b + i) * SCR_ROW_BYTES W + BOX_X b div 8 + j) =
        (if y \<le> i then bytes ! (i * (BOX_W b div 8) + j)
         else canvas ! ((BOX_Y b + i) * SCR_ROW_BYTES W + BOX_X b div 8 + j)))"
  using assms
proof (induction W b bytes y canvas rule: write_rows.induct)
  case (1 W b bytes y canvas)
  let ?n = "BOX_W b div 8" and ?rb = "SCR_ROW_BYTES W" and ?x8 = "BOX_X b div 8"
  show ?case
  proof (cases "y < BOX_H b")
    case False
    then show ?thesis by (simp add: write_rows.simps [of W b bytes y canvas])
  next
    case True
    then have "Suc y * ?n \<le> BOX_H b * ?n" by (intro mult_le_mono1) simp
    then have s: "y * ?n + ?n \<le> length bytes" using "1.prems"(3) by (simp add: mult.commute)
    from True have "Suc (BOX_Y b + y) * ?rb \<le> (BOX_Y b + BOX_H b) * ?rb"
      by (intro mult_le_mono1) simp
    then have d: "(BOX_Y b + y) * ?rb + ?x8 + ?n \<le> length canvas"
      using "1.prems"(1,2) by simp
    from memcpy_ok [OF d s]
    obtain c' where m: "memcpy canvas ((BOX_Y b + y) * ?rb + ?x8) bytes (y * ?n) ?n = Inr c'"
      by auto
    have len: "length c' = length canvas" using m by (rule memcpy_length)
    from True have sy: "Suc y \<le> BOX_H b" by simp
    from "1.IH" [OF True m "1.prems"(1) _ "1.prems"(3) sy] len "1.prems"(2)
    obtain r where r: "write_rows W b bytes (Suc y) c' = Inr r" "length r = length c'"
      and rn: "\<And>i j. i < BOX_H b \<Longrightarrow> j < ?n \<Longrightarrow> r ! ((BOX_Y b + i) * ?rb + ?x8 + j) =
        (if Suc y \<le> i then bytes ! (i * ?n + j) else c' ! ((BOX_Y b + i) * ?rb + ?x8 + j))"
      by auto
    have c: "write_rows W b bytes y canvas = Inr r"
      using True m r(1) by (simp add: write_rows.simps [of W b bytes y canvas])
    have "r ! ((BOX_Y b + i) * ?rb + ?x8 + j) =
        (if y \<le> i then bytes ! (i * ?n + j) else canvas ! ((BOX_Y b + i) * ?rb + ?x8 + j))"
      if ij: "i < BOX_H b" "j < ?n" for i j
    proof -
      consider "y < i" | "i = y" | "i < y" by linarith
      then show ?thesis
      proof cases
        case 1
        then show ?thesis using rn [OF ij] by simp
      next
        case 2
        have k: "(BOX_Y b + y) * ?rb + ?x8 + j < length canvas" using d ij(2) by simp
        have "c' ! ((BOX_Y b + y) * ?rb + ?x8 + j) = bytes ! (y * ?n + j)"
          using memcpy_nth [OF m k] ij(2) by simp
        then show ?thesis using rn [OF ij] 2 by simp
      next
        case 3
        have "?x8 + j < ?rb" using ij(2) "1.prems"(1) by simp
        with 3 have lt: "(BOX_Y b + i) * ?rb + (?x8 + j) < (BOX_Y b + y) * ?rb"
          by (intro row_below) simp_all
        with d have k: "(BOX_Y b + i) * ?rb + ?x8 + j < length canvas" by simp
        have "c' ! ((BOX_Y b + i) * ?rb + ?x8 + j) = canvas ! ((BOX_Y b + i) * ?rb + ?x8 + j)"
          using memcpy_nth [OF m k] lt by simp
        then show ?thesis using rn [OF ij] 3 by simp
      qed
    qed
    with c r(2) len show ?thesis by simp
  qed
qed


lemma region_ok_facts:
  assumes "region_ok width height r"
  shows "BOX_ROW_BYTES r = BOX_W r div 8"
    and "BOX_X r div 8 + BOX_W r div 8 \<le> SCR_ROW_BYTES width"
    and "(BOX_Y r + BOX_H r) * SCR_ROW_BYTES width \<le> SCR_ROW_BYTES width * height"
proof -
  from assms have a: "BOX_X r mod 8 = 0" "BOX_W r mod 8 = 0" "BOX_X r + BOX_W r \<le> width"
    "BOX_Y r + BOX_H r \<le> height"
    by (simp_all add: region_ok_def)
  show "BOX_ROW_BYTES r = BOX_W r div 8" using a(2) by (simp add: BOX_ROW_BYTES_def)
  have "(BOX_X r + BOX_W r) div 8 = BOX_X r div 8 + BOX_W r div 8"
    by (simp add: div_add1_eq a(1,2))
  moreover have "(BOX_X r + BOX_W r) div 8 \<le> width div 8"
    using a(3) by (rule div_le_mono)
  ultimately have "BOX_X r div 8 + BOX_W r div 8 \<le> width div 8" by simp
  also have "\<dots> \<le> SCR_ROW_BYTES width" by (simp add: SCR_ROW_BYTES_def)
  finally show "BOX_X r div 8 + BOX_W r div 8 \<le> SCR_ROW_BYTES width" .
  have "(BOX_Y r + BOX_H r) * SCR_ROW_BYTES width \<le> height * SCR_ROW_BYTES width"
    using a(4) by (rule mult_le_mono1)
  then show "(BOX_Y r + BOX_H r) * SCR_ROW_BYTES width \<le> SCR_ROW_BYTES width * height"
    by (simp add: mult.commute)
qed

lemma rows_determine:
  fixes xs ys :: "'a list"
  assumes "length xs = n * h" "length ys = n * h"
    and "\<And>i j. i < h \<Longrightarrow> j < n \<Longrightarrow> xs ! (i * n + j) = ys ! (i * n + j)"
  shows "xs = ys"
proof (rule nth_equalityI)
  show "length xs = length ys" using assms(1,2) by simp
next
  fix k assume "k < length xs"
  then have k: "k < n * h" using assms(1) by simp
  then have n: "0 < n" by (cases n) simp_all
  from k have "k < h * n" by (simp only: mult.commute)
  then have "k div n < h" by (rule less_mult_imp_div_less)
  moreover have "k mod n < n" using n by simp
  ultimately have "xs ! (k div n * n + k mod n) = ys ! (k div n * n + k mod n)"
    by (rule assms(3))
  then show "xs ! k = ys ! k" by simp
qed

lemma copyBox_rows:
  assumes "region_ok width height r" "(BOX_Y r + BOX_H r) * SCR_ROW_BYTES width \<le> length img"
  shows "\<exists>bytes. copyBoxFromBWimage width r img = Inr bytes
    \<and> length bytes = BOX_W r div 8 * BOX_H r
    \<and> (\<forall>i<BOX_H r. \<forall>j<BOX_W r div 8.
          bytes ! (i * (BOX_W r div 8) + j)
            = img ! ((BOX_Y r + i) * SCR_ROW_BYTES width + BOX_X r div 8 + j))"
proof -
  note f = region_ok_facts [OF assms(1)]
  have fit: "BOX_X r div 8 + BOX_ROW_BYTES r \<le> SCR_ROW_BYTES width"
    using f(2) by (simp only: f(1))
  have "\<exists>bytes. copy_rows width r img 0 (replicate (BOX_ROW_BYTES r * BOX_H r) 0) = Inr bytes
    \<and> length bytes = length (replicate (BOX_ROW_BYTES r * BOX_H r) (0 :: byte))
    \<and> (\<forall>i<BOX_H r. \<forall>j<BOX_ROW_BYTES r. bytes ! (i * BOX_ROW_BYTES r + j) =
        (if 0 \<le> i then img ! ((BOX_Y r + i) * SCR_ROW_BYTES width + BOX_X r div 8 + j)
         else replicate (BOX_ROW_BYTES r * BOX_H r) 0 ! (i * BOX_ROW_BYTES r + j)))"
    by (rule copy_rows_inv [OF fit assms(2)]) simp_all
  then show ?thesis
    unfolding copyBoxFromBWimage_def f(1) by simp
qed

lemma write_back_rows:
  assumes "region_ok width height r" "length bytes = BOX_W r div 8 * BOX_H r"
  shows "\<exists>canvas'. write_back width height r bytes = Inr canvas'
    \<and> length canvas' = SCR_ROW_BYTES width * height
    \<and> (\<forall>i<BOX_H r. \<forall>j<BOX_W r div 8.
          canvas' ! ((BOX_Y r + i) * SCR_ROW_BYTES width + BOX_X r div 8 + j)
            = bytes ! (i * (BOX_W r div 8) + j))"
proof -
  note f = region_ok_facts [OF assms(1)]
  have inside: "(BOX_Y r + BOX_H r) * SCR_ROW_BYTES width
      \<le> length (replicate (SCR_ROW_BYTES width * height) (0 :: byte))"
    using f(3) by simp
  have "\<exists>c. write_rows width r bytes 0 (replicate (SCR_ROW_BYTES width * height) 0) = Inr c
    \<and> length c = length (replicate (SCR_ROW_BYTES width * height) (0 :: byte))
    \<and> (\<forall>i<BOX_H r. \<forall>j<BOX_W r div 8.
        c ! ((BOX_Y r + i) * SCR_ROW_BYTES width + BOX_X r div 8 + j) =
        (if 0 \<le> i then bytes ! (i * (BOX_W r div 8) + j)
         else replicate (SCR_ROW_BYTES width * height) 0
            ! ((BOX_Y r + i) * SCR_ROW_BYTES width + BOX_X r div 8 + j)))"
    by (rule write_rows_inv [OF f(2) inside assms(2)]) simp
  then show ?thesis
    unfolding write_back_def by simp
qed

text \<open>
  C8: for a region that satisfies the Region invariants on a canvas of
  \<open>rowBytes * height\<close> bytes, the extraction succeeds, returns \<open>(w / 8) * h\<close> bytes, row
  \<open>i\<close> of which holds the \<open>w / 8\<close> bytes at offset \<open>x / 8\<close> of canvas row \<open>y + i\<close>; writing
  them back into a zeroed canvas gives the original bytes at every position of the
  region, and extracting from that canvas gives the same buffer again.
\<close>

theorem copyBox_roundtrip:
  assumes "region_ok width height r" "length canvas = SCR_ROW_BYTES width * height"
  shows "\<exists>bytes canvas'.
      copyBoxFromBWimage width r canvas = Inr bytes
    \<and> length bytes = BOX_W r div 8 * BOX_H r
    \<and> (\<forall>i<BOX_H r. \<forall>j<BOX_W r div 8.
          bytes ! (i * (BOX_W r div 8) + j)
            = canvas ! ((BOX_Y r + i) * SCR_ROW_BYTES width + BOX_X r div 8 + j))
    \<and> write_back width height r bytes = Inr canvas'
    \<and> (\<forall>i<BOX_H r. \<forall>j<BOX_W r div 8.
          canvas' ! ((BOX_Y r + i) * SCR_ROW_BYTES width + BOX_X r div 8 + j)
            = canvas ! ((BOX_Y r + i) * SCR_ROW_BYTES width + BOX_X r div 8 + j))
    \<and> copyBoxFromBWimage width r canvas' = Inr bytes"
proof -
  let ?n = "BOX_W r div 8"
  let ?pos = "\<lambda>i j. (BOX_Y r + i) * SCR_ROW_BYTES width + BOX_X r div 8 + j"
  note f = region_ok_facts [OF assms(1)]
  have inside: "(BOX_Y r + BOX_H r) * SCR_ROW_BYTES width \<le> length canvas"
    using f(3) by (simp only: assms(2))
  from copyBox_rows [OF assms(1) inside]
  obtain bytes where b: "copyBoxFromBWimage width r canvas = Inr bytes"
    and bl: "length bytes = ?n * BOX_H r"
    and bn: "\<forall>i<BOX_H r. \<forall>j<?n. bytes ! (i * ?n + j) = canvas ! ?pos i j"
    by blast
  from write_back_rows [OF assms(1) bl]
  obtain canvas' where w: "write_back width height r bytes = Inr canvas'"
    and wl: "length canvas' = SCR_ROW_BYTES width * height"
    and wn: "\<forall>i<BOX_H r. \<forall>j<?n. canvas' ! ?pos i j = bytes ! (i * ?n + j)"
    by blast
  have inside': "(BOX_Y r + BOX_H r) * SCR_ROW_BYTES width \<le> length canvas'"
    using f(3) by (simp only: wl)
  from copyBox_rows [OF assms(1) inside']
  obtain bytes' where b': "copyBoxFromBWimage width r canvas' = Inr bytes'"
    and bl': "length bytes' = ?n * BOX_H r"
    and bn': "\<forall>i<BOX_H r. \<forall>j<?n. bytes' ! (i * ?n + j) = canvas' ! ?pos i j"
    by blast
  have "bytes' = bytes"
    using bl' bl by (rule rows_determine) (simp add: bn' wn)
  moreover have "\<forall>i<BOX_H r. \<forall>j<?n. canvas' ! ?pos i j = canvas ! ?pos i j"
    using wn bn by simp
  ultimately show ?thesis using b bl bn w b' by blast
qed

theorem copyBox_roundtrip_witness:
  "region_ok 16 4 \<lparr>BOX_X = 8, BOX_Y = 1, BOX_W = 8, BOX_H = 2\<rparr>
   \<and> (\<exists>bytes canvas'.
        copyBoxFromBWimage 16 \<lparr>BOX_X = 8, BOX_Y = 1, BOX_W = 8, BOX_H = 2\<rparr>
          [1, 2, 3, 4, 5, 6, 7, 8] = Inr bytes
      \<and> length bytes = 2
      \<and> write_back 16 4 \<lparr>BOX_X = 8, BOX_Y = 1, BOX_W = 8, BOX_H = 2\<rparr> bytes = Inr canvas'
      \<and> copyBoxFromBWimage 16 \<lparr>BOX_X = 8, BOX_Y = 1, BOX_W = 8, BOX_H = 2\<rparr> canvas'
          = Inr bytes)"
proof -
  let ?r = "\<lparr>BOX_X = 8, BOX_Y = 1, BOX_W = 8, BOX_H = 2\<rparr>"
  have h1: "region_ok 16 4 ?r" by (simp add: region_ok_def)
  have h2: "length [1, 2, 3, 4, 5, 6, 7, 8 :: byte] = SCR_ROW_BYTES 16 * 4"
    by (simp add: SCR_ROW_BYTES_def)
  from copyBox_roundtrip [OF h1 h2]
  obtain bytes canvas' where
    "copyBoxFromBWimage 16 ?r [1, 2, 3, 4, 5, 6, 7, 8] = Inr bytes"
    "length bytes = BOX_W ?r div 8 * BOX_H ?r"
    "write_back 16 4 ?r bytes = Inr canvas'"
    "copyBoxFromBWimage 16 ?r canvas' = Inr bytes"
    by blast
  then have "\<exists>bytes canvas'.
        copyBoxFromBWimage 16 ?r [1, 2, 3, 4, 5, 6, 7, 8] = Inr bytes
      \<and> length bytes = 2
      \<and> write_back 16 4 ?r bytes = Inr canvas'
      \<and> copyBoxFromBWimage 16 ?r canvas' = Inr bytes"
    by auto
  with h1 show ?thesis by simp
qed

text \<open>The same run, computed: the second byte of canvas rows 1 and 2 goes out and back.\<close>

lemma copyBox_example:
  "copyBoxFromBWimage 16 \<lparr>BOX_X = 8, BOX_Y = 1, BOX_W = 8, BOX_H = 2\<rparr>
     [1, 2, 3, 4, 5, 6, 7, 8] = Inr [4, 6]"
  "write_back 16 4 \<lparr>BOX_X = 8, BOX_Y = 1, BOX_W = 8, BOX_H = 2\<rparr> [4, 6]
     = Inr [0, 0, 0, 4, 0, 6, 0, 0]"
  by code_simp+

text \<open>The region of \<open>plantmonitor.ino\<close> satisfies the invariants on the 122 by 250 panel.\<close>

lemma box_main_region_ok: "region_ok 122 250 box_main"
  by (simp add: region_ok_def box_main_def)

section \<open>Results on the dynamic layer\<close>

lemma c_div_nonneg: "0 \<le> a \<Longrightarrow> 0 < b \<Longrightarrow> c_div a b = a div b"
  by (cases "a = 0") (simp_all add: c_div_def)

lemma c_div_numeral: "c_div (numeral a) (numeral b) = numeral a div numeral b"
  by (rule c_div_nonneg) simp_all

lemma fill_bounds:
  assumes "0 \<le> pct" "pct \<le> 100" "0 \<le> n"
  shows "c_div (n * pct) 100 = (n * pct) div 100"
    and "0 \<le> c_div (n * pct) 100" and "c_div (n * pct) 100 \<le> n"
proof -
  from assms have nn: "0 \<le> n * pct" by simp
  then show e: "c_div (n * pct) 100 = (n * pct) div 100" by (simp add: c_div_nonneg)
  from nn show "0 \<le> c_div (n * pct) 100" by (simp add: e pos_imp_zdiv_nonneg_iff)
  from assms have "n * pct \<le> n * 100" by (intro mult_left_mono) simp_all
  then have "(n * pct) div 100 \<le> (n * 100) div 100" by (intro zdiv_mono1) simp_all
  then show "c_div (n * pct) 100 \<le> n" by (simp add: e)
qed

subsection \<open>The label\<close>

text \<open>
  In \<open>plantmonitor.ino\<close> the label \<open>Moisture\<close> starts ten rows below the top edge of the
  region, inside the interior.
\<close>

lemma label_main_inside:
  "Gui_Draw_Str 6 42 ''Moisture'' Font16 WHITE BLACK \<in> set (drawDynamic box_main pct)"
  "rect_within (extent (Gui_Draw_Str 6 42 ''Moisture'' Font16 WHITE BLACK))
     (box_interior box_main)"
  by (simp_all add: drawDynamic_def box_interior_def box_main_def Let_def)

text \<open>
  C5 on the 5-level sketch: for every percent its render draws the label \<open>Moisture\<close> by
  \<open>Gui_Draw_Str(leftX, BOX_Y - 20, ...)\<close>. The string starts at pixel \<open>(6, 12)\<close>, which is
  not in the interior of the region: it lies above the region, whose first row is 32,
  and above the divider at row 28, in the header that \<open>drawStaticLayout\<close> draws once at
  boot. The comments of the same function speak of clearing inside the box, leaving the
  outline, and of not drawing outside the box.
\<close>

theorem label_outside:
  "label5 \<in> set (drawDynamic5 box5 pct)
   \<and> extent label5 = (6, 12, 6, 12)
   \<and> box_interior box5 = (1, 33, 246, 120)
   \<and> \<not> rect_within (extent label5) (box_interior box5)
   \<and> fst (snd (extent label5)) < int (BOX_Y box5)
   \<and> fst (snd (extent label5)) < 28"
  by (simp add: drawDynamic5_def label5_def box_interior_def box5_def Let_def)

subsection \<open>The face\<close>

text \<open>The clamp keeps the head circle inside when the radius and the padding fit the region.\<close>

lemma faceCentre_fits:
  assumes "2 * (faceR + 2) \<le> int (BOX_W b)" "2 * (faceR + 2) \<le> int (BOX_H b)"
  shows "case faceCentre b faceR faceDx faceDy of (cx, cy) \<Rightarrow>
     rect_within (extent (Gui_Draw_Circle cx cy faceR BLACK EMPTY PIXEL_2X2)) (box_interior b)"
  using assms by (simp add: faceCentre_def clampi_def box_interior_def Let_def)

text \<open>
  C7 at the sketch's own constants: with \<open>faceR = 45\<close> in a region 90 rows high the lower
  clamp bound 79 exceeds the upper bound 75, the centre ends at row 75, and the head
  circle reaches from row 30 to row 120, while the interior starts at row 33. The radius
  is never adjusted.
\<close>

theorem face_outside:
  "faceCentre box5 45 5 20 = (191, 75)
   \<and> head5 \<in> set (drawDynamic5 box5 50)
   \<and> extent head5 = (146, 30, 236, 120)
   \<and> box_interior box5 = (1, 33, 246, 120)
   \<and> \<not> rect_within (extent head5) (box_interior box5)"
  by (simp add: drawDynamic5_def drawFaceAt5_def faceCentre_def clampi_def head5_def
      box_interior_def box5_def c_div_numeral Let_def)

subsection \<open>The progress bar\<close>

text \<open>
  C6 at 50 percent in \<open>plantmonitor.ino\<close>: the outline leaves 55 columns, of which
  \<open>55 * 50 div 100 = 27\<close> should be filled, and the fill rectangle covers 28.
\<close>

theorem bar_fill_off_by_one:
  "filled_width (drawDynamic box_main 50) = 28
   \<and> inner_width (drawDynamic box_main 50) = 55
   \<and> (inner_width (drawDynamic box_main 50) * 50) div 100 = 27"
  by code_simp

text \<open>The bar of the 5-level sketch fills exactly that many columns, for every percent.\<close>

lemma bar5_fill_exact:
  assumes "0 \<le> pct" "pct \<le> 100" "1 \<le> barW" "0 \<le> barH"
  shows "int (filled_width (draw_bar5 barX barY barW barH pct))
     = (inner_width (draw_bar5 barX barY barW barH pct) * pct) div 100"
proof -
  have e: "c_div ((barW - 1) * pct) 100 = ((barW - 1) * pct) div 100"
    and n: "0 \<le> c_div ((barW - 1) * pct) 100"
    using fill_bounds(1,2) [of pct "barW - 1"] assms by simp_all
  show ?thesis
    using assms e n
    by (simp add: draw_bar5_def filled_width_def inner_width_def Let_def distinct_remdups_id)
qed

text \<open>
  C10: at 0 percent the bar of \<open>plantmonitor.ino\<close>, and of every sketch with the same
  three statements, still makes the fill call, from column \<open>barX + 1\<close> to column
  \<open>barX + 1\<close>, which is one column wide; the bar of the 5-level sketch, which tests
  \<open>fillPx > 0\<close>, fills nothing.
\<close>

theorem bar_one_pixel_at_zero:
  assumes "2 \<le> barH"
  shows "draw_bar barX barY barW barH 0 ! 1
      = Gui_Draw_Rectangle (barX + 1) (barY + 1) (barX + 1) (barY + barH - 1) BLACK FULL PIXEL_1X1
    \<and> filled_width (draw_bar barX barY barW barH 0) = 1
    \<and> filled_width (draw_bar5 barX barY barW barH 0) = 0
    \<and> filled_width (drawDynamic box_main 0) = 1
    \<and> filled_width (drawDynamic5 box5 0) = 0"
proof -
  have a: "filled_width (drawDynamic box_main 0) = 1" by code_simp
  have b: "filled_width (drawDynamic5 box5 0) = 0" by code_simp
  have z: "c_div 0 100 = 0" by (simp add: c_div_def)
  show ?thesis
    using assms a b z by (simp add: draw_bar_def draw_bar5_def filled_width_def Let_def)
qed

theorem bar_one_pixel_at_zero_witness:
  "filled_width (draw_bar 6 222 56 8 0) = 1 \<and> filled_width (draw_bar5 6 72 100 15 0) = 0"
  using bar_one_pixel_at_zero [of 8 6 222 56] bar_one_pixel_at_zero [of 15 6 72 100]
  by simp

end
